theory Spec2Isabelle
  imports Complex_Main "HOL-Library.Sublist"
begin

section \<open>Python values used by the bias engine\<close>

text \<open>
  The engine of \<^verbatim>\<open>src/backend/app/main.py\<close> works on Python \<^verbatim>\<open>str\<close>, \<^verbatim>\<open>list\<close>,
  \<^verbatim>\<open>dict\<close> and \<^verbatim>\<open>float\<close> values.

  \<^item> A \<^verbatim>\<open>str\<close> is a \<open>string\<close>; a \<open>char\<close> stands for the code point with the same
    number, so the model covers the texts over the code points 0 to 255.
  \<^item> A \<^verbatim>\<open>float\<close> is an exact rational. The weights, the match counts and the raw
    scores (multiples of a quarter) are exact in binary floating point as well, and the
    comparison of a match ratio with 0.6 has the same outcome for every phrase of fewer
    than \<open>2 ^ 50\<close> words. The quotients of the normalisation and the products with
    0.85 are rounded by Python and exact here; the rounding of the quotients is modelled
    apart, in the section on binary floating point.
  \<^item> An exception is a value \<open>Inl e\<close> of a sum type.
\<close>

datatype error = ZeroDivisionError | ValueError | IndexError | KeyError string

subsection \<open>\<^verbatim>\<open>str.lower\<close>, \<^verbatim>\<open>str.split\<close>, \<^verbatim>\<open>str.strip\<close>, \<^verbatim>\<open>str.rstrip\<close>, \<^verbatim>\<open>in\<close>\<close>

text \<open>
  The code points below 256 for which \<^verbatim>\<open>str.isspace\<close> holds; \<^verbatim>\<open>split()\<close> and
  \<^verbatim>\<open>strip()\<close> without argument use the same set.
\<close>

definition is_space :: "char \<Rightarrow> bool" where
  "is_space c = ((of_char c :: nat) \<in> {9, 10, 11, 12, 13, 28, 29, 30, 31, 32, 133, 160})"

text \<open>
  \<^verbatim>\<open>str.lower\<close> on one code point below 256: the letters A to Z and the Latin-1
  capitals (192 to 222 without the multiplication sign 215) move up by 32.
\<close>

definition lower_char :: "char \<Rightarrow> char" where
  "lower_char c =
     (let n = (of_char c :: nat)
      in if (65 \<le> n \<and> n \<le> 90) \<or> (192 \<le> n \<and> n \<le> 222 \<and> n \<noteq> 215)
         then char_of (n + 32) else c)"

definition lower :: "string \<Rightarrow> string" where
  "lower s = map lower_char s"

text \<open>
  \<^verbatim>\<open>s.split()\<close>: the maximal runs of non-whitespace characters, in order. The first
  argument is the word read so far.
\<close>

fun split_from :: "string \<Rightarrow> string \<Rightarrow> string list" where
  "split_from cur [] = (if cur = [] then [] else [cur])"
| "split_from cur (c # cs) =
     (if is_space c
      then (if cur = [] then split_from [] cs else cur # split_from [] cs)
      else split_from (cur @ [c]) cs)"

definition str_split :: "string \<Rightarrow> string list" where
  "str_split s = split_from [] s"

definition strip :: "string \<Rightarrow> string" where
  "strip s = rev (dropWhile is_space (rev (dropWhile is_space s)))"

text \<open>
  \<^verbatim>\<open>s.rstrip(chars)\<close> removes every trailing character that occurs in \<open>chars\<close>
  (a set of characters, not a suffix).
\<close>

definition rstrip :: "string \<Rightarrow> string \<Rightarrow> string" where
  "rstrip s chars = rev (dropWhile (\<lambda>c. c \<in> set chars) (rev s))"

text \<open>
  \<^verbatim>\<open>a in b\<close> on two strings is \<^term>\<open>sublist a b\<close>: \<open>b = ps @ a @ ss\<close> for some
  \<open>ps\<close> and \<open>ss\<close>.
\<close>

section \<open>The phrase matcher of \<^verbatim>\<open>main.py\<close>\<close>

text \<open>
  \<^verbatim>\<open>{w[i:j] for w in text_words for i in range(len(w)) for j in range(i + 3, len(w) + 1)}\<close>.
  The source builds a set; it is only tested for membership and searched with
  \<^verbatim>\<open>any\<close>, so the list of its elements is enough.
\<close>

definition text_substrings_of :: "string list \<Rightarrow> string list" where
  "text_substrings_of text_words =
     concat (map (\<lambda>w. concat (map (\<lambda>i. map (\<lambda>j. take (j - i) (drop i w))
                                              [i + 3 ..< length w + 1])
                                  [0 ..< length w]))
                 text_words)"

definition word_variations :: "string \<Rightarrow> string list" where
  "word_variations phrase_word =
     [rstrip phrase_word ''s'',
      rstrip phrase_word ''ed'',
      rstrip phrase_word ''ing'',
      phrase_word @ ''s'',
      phrase_word @ ''ed'',
      phrase_word @ ''ing'']"

text \<open>
  The loop \<^verbatim>\<open>for text_word in text_words\<close> of lines 82 to 91: \<open>found_match\<close> is set
  at the first text word that satisfies one of the four conditions.
\<close>

definition found_match :: "string list \<Rightarrow> string list \<Rightarrow> string \<Rightarrow> bool" where
  "found_match text_words text_substrings phrase_word =
     list_ex (\<lambda>text_word.
         sublist phrase_word text_word \<or>
         sublist text_word phrase_word \<or>
         phrase_word \<in> set text_substrings \<or>
         list_ex (\<lambda>sub. sublist sub phrase_word)
                 (filter (\<lambda>sub. 3 \<le> length sub) text_substrings))
       text_words"

text \<open>
  The loop \<^verbatim>\<open>for variation in word_variations\<close> of lines 106 to 110.
\<close>

definition variation_match :: "string list \<Rightarrow> string list \<Rightarrow> string \<Rightarrow> bool" where
  "variation_match text_words text_substrings phrase_word =
     list_ex (\<lambda>variation. variation \<in> set text_words \<or> variation \<in> set text_substrings)
             (word_variations phrase_word)"

text \<open>
  The loop \<^verbatim>\<open>for phrase_word in phrase_words\<close> of lines 72 to 110, with the counter
  \<open>matched_words\<close> as the last argument.
\<close>

fun count_matched_words :: "string list \<Rightarrow> string list \<Rightarrow> string list \<Rightarrow> nat \<Rightarrow> nat" where
  "count_matched_words text_words text_substrings [] matched_words = matched_words"
| "count_matched_words text_words text_substrings (phrase_word # rest) matched_words =
     (if phrase_word \<in> set text_words
      then count_matched_words text_words text_substrings rest (matched_words + 1)
      else if found_match text_words text_substrings phrase_word
      then count_matched_words text_words text_substrings rest (matched_words + 1)
      else if variation_match text_words text_substrings phrase_word
      then count_matched_words text_words text_substrings rest (matched_words + 1)
      else count_matched_words text_words text_substrings rest matched_words)"

text \<open>
  \<^verbatim>\<open>match_ratio = matched_words / len(phrase_words)\<close>: true division of two integers,
  which raises \<^verbatim>\<open>ZeroDivisionError\<close> when the phrase has no word.
\<close>

definition match_ratio :: "nat \<Rightarrow> nat \<Rightarrow> error + rat" where
  "match_ratio matched_words n =
     (if n = 0 then Inl ZeroDivisionError else Inr (of_nat matched_words / of_nat n))"

text \<open>
  The loop \<^verbatim>\<open>for phrase in phrases\<close> of lines 52 to 117. \<open>text\<close> is the lowercased
  text, \<open>matches\<close> the list built so far.
\<close>

fun find_phrase_matches_loop ::
  "string \<Rightarrow> string list \<Rightarrow> string list \<Rightarrow> string list \<Rightarrow> error + string list" where
  "find_phrase_matches_loop text text_words [] matches = Inr matches"
| "find_phrase_matches_loop text text_words (p # phrases) matches =
     (let phrase = lower p;
          phrase_words = str_split phrase
      in if sublist phrase text
         then find_phrase_matches_loop text text_words phrases (matches @ [phrase])
         else
           (let matched_words =
                  count_matched_words text_words (text_substrings_of text_words) phrase_words 0
            in case match_ratio matched_words (length phrase_words) of
                 Inl e \<Rightarrow> Inl e
               | Inr r \<Rightarrow>
                   if r \<ge> 6 / 10
                   then find_phrase_matches_loop text text_words phrases (matches @ [phrase])
                   else find_phrase_matches_loop text text_words phrases matches))"

definition find_phrase_matches :: "string \<Rightarrow> string list \<Rightarrow> error + string list" where
  "find_phrase_matches text phrases =
     (let text' = lower text;
          text_words = str_split text'
      in find_phrase_matches_loop text' text_words phrases [])"

section \<open>The bias scorer of \<^verbatim>\<open>main.py\<close>\<close>

text \<open>
  \<^verbatim>\<open>BIAS_KEYWORDS\<close> is read from \<^verbatim>\<open>data/bias_keywords.json\<close> when the module is
  loaded. The scorer reads seven phrase lists from it; they are a parameter here.
\<close>

record bias_keywords =
  extreme_right_keywords :: "string list"
  extreme_left_keywords :: "string list"
  left_wing_economic :: "string list"
  left_wing_social :: "string list"
  right_wing_economic :: "string list"
  right_wing_social :: "string list"
  neutral_terms :: "string list"

text \<open>
  A \<^verbatim>\<open>dict\<close> of scores is the list of its items in insertion order, which is the
  order of \<^verbatim>\<open>scores.items()\<close> and \<^verbatim>\<open>scores.values()\<close>. The dictionary
  \<open>detected_phrases\<close> is only written and returned, so it is a map.
\<close>

type_synonym scores = "(string \<times> rat) list"

type_synonym detected = "string \<rightharpoonup> string list"

definition and_then :: "error + 'a \<Rightarrow> ('a \<Rightarrow> error + 'b) \<Rightarrow> error + 'b" where
  "and_then r f = (case r of Inl e \<Rightarrow> Inl e | Inr x \<Rightarrow> f x)"

definition initial_scores :: scores where
  "initial_scores =
     [(''left_wing'', 0), (''right_wing'', 0), (''extreme_left'', 0),
      (''extreme_right'', 0), (''neutral'', 0)]"

text \<open>
  \<^verbatim>\<open>scores[cat] += x\<close>. Every call below names a key of \<open>initial_scores\<close>, so the
  \<^verbatim>\<open>KeyError\<close> of a missing key cannot arise and the first equation is never reached.
\<close>

fun add_score :: "string \<Rightarrow> rat \<Rightarrow> scores \<Rightarrow> scores" where
  "add_score cat x [] = []"
| "add_score cat x ((k, v) # rest) =
     (if k = cat then (k, v + x) # rest else (k, v) # add_score cat x rest)"

text \<open>
  \<^verbatim>\<open>detected_phrases[cat].extend(matches)\<close> on a \<^verbatim>\<open>defaultdict(list)\<close>: reading a
  missing key creates it with the empty list.
\<close>

definition extend_detected :: "string \<Rightarrow> string list \<Rightarrow> detected \<Rightarrow> detected" where
  "extend_detected cat matches d =
     d(cat \<mapsto> (case d cat of None \<Rightarrow> [] | Some l \<Rightarrow> l) @ matches)"

text \<open>
  One block \<^verbatim>\<open>matches = find_phrase_matches(text, ...); if matches: ...\<close>, for the
  category \<open>cat\<close> and the weight \<open>weight\<close>.
\<close>

definition score_block ::
  "string \<Rightarrow> string list \<Rightarrow> string \<Rightarrow> rat \<Rightarrow> scores \<times> detected \<Rightarrow> error + scores \<times> detected" where
  "score_block text phrases cat weight st =
     and_then (find_phrase_matches text phrases) (\<lambda>matches.
       if matches \<noteq> []
       then Inr (add_score cat (of_nat (length matches) * weight) (fst st),
                 extend_detected cat matches (snd st))
       else Inr st)"

text \<open>Lines 124 to 172: the raw scores and the detected phrases before normalisation.\<close>

definition raw_bias_scores :: "bias_keywords \<Rightarrow> string \<Rightarrow> error + scores \<times> detected" where
  "raw_bias_scores kw text =
     and_then (score_block text (extreme_right_keywords kw) ''extreme_right'' 2
                 (initial_scores, Map.empty)) (\<lambda>st.
     and_then (score_block text (extreme_left_keywords kw) ''extreme_left'' 2 st) (\<lambda>st.
     and_then (score_block text (left_wing_economic kw) ''left_wing'' 1 st) (\<lambda>st.
     and_then (score_block text (left_wing_social kw) ''left_wing'' 1 st) (\<lambda>st.
     and_then (score_block text (right_wing_economic kw) ''right_wing'' 1 st) (\<lambda>st.
     and_then (score_block text (right_wing_social kw) ''right_wing'' 1 st) (\<lambda>st.
     score_block text (neutral_terms kw) ''neutral'' (75 / 100) st))))))"

text \<open>Lines 174 to 178.\<close>

definition normalize :: "scores \<Rightarrow> scores" where
  "normalize scores =
     (let total_score = sum_list (map snd scores)
      in if total_score > 0
         then map (\<lambda>(category, score). (category, score / total_score)) scores
         else scores)"

definition calculate_bias_scores :: "bias_keywords \<Rightarrow> string \<Rightarrow> error + scores \<times> detected" where
  "calculate_bias_scores kw text =
     and_then (raw_bias_scores kw text) (\<lambda>(scores, detected_phrases).
       Inr (normalize scores, detected_phrases))"

section \<open>The decision rule of \<^verbatim>\<open>main.py\<close>\<close>

text \<open>\<^verbatim>\<open>max(values)\<close> raises \<^verbatim>\<open>ValueError\<close> on an empty sequence.\<close>

fun py_max :: "rat list \<Rightarrow> error + rat" where
  "py_max [] = Inl ValueError"
| "py_max (x # xs) = Inr (fold max xs x)"

text \<open>
  \<^verbatim>\<open>max(d.items(), key=lambda x: x[1])\<close>: the first item whose value is maximal; a
  later item replaces the best one only when its value is strictly greater.
\<close>

fun max_by_value :: "scores \<Rightarrow> error + string \<times> rat" where
  "max_by_value [] = Inl ValueError"
| "max_by_value (x # xs) = Inr (fold (\<lambda>y best. if snd best < snd y then y else best) xs x)"

text \<open>\<^verbatim>\<open>scores[cat]\<close> raises \<^verbatim>\<open>KeyError\<close> when the key is missing.\<close>

definition get_score :: "scores \<Rightarrow> string \<Rightarrow> error + rat" where
  "get_score scores cat = (case map_of scores cat of None \<Rightarrow> Inl (KeyError cat) | Some v \<Rightarrow> Inr v)"

text \<open>\<^verbatim>\<open>{cat: scores[cat] for cat in cats}\<close>, for a list \<open>cats\<close> without repetition.\<close>

fun get_scores :: "scores \<Rightarrow> string list \<Rightarrow> error + scores" where
  "get_scores scores [] = Inr []"
| "get_scores scores (cat # cats) =
     and_then (get_score scores cat) (\<lambda>v.
     and_then (get_scores scores cats) (\<lambda>rest. Inr ((cat, v) # rest)))"

definition extreme_categories :: "string list" where
  "extreme_categories = [''extreme_left'', ''extreme_right'']"

text \<open>
  \<^verbatim>\<open>[cat for cat, score in scores.items() if score >= threshold]\<close> with
  \<^verbatim>\<open>threshold = max_score * 0.85\<close>.
\<close>

definition dominant_categories :: "scores \<Rightarrow> rat \<Rightarrow> string list" where
  "dominant_categories scores max_score =
     (let threshold = max_score * (85 / 100)
      in map fst (filter (\<lambda>(cat, score). score \<ge> threshold) scores))"

definition determine_overall_bias :: "scores \<Rightarrow> error + string \<times> rat" where
  "determine_overall_bias scores =
     and_then (py_max (map snd scores)) (\<lambda>max_score.
       if max_score = 0 then Inr (''neutral'', 0)
       else
         (let dominant = dominant_categories scores max_score;
              has_extreme = list_ex (\<lambda>cat. cat \<in> set extreme_categories) dominant;
              rest =
                (if length dominant > 1 then Inr (''mixed'', max_score)
                 else (case dominant of
                         [] \<Rightarrow> Inl IndexError
                       | dominant_category # _ \<Rightarrow> Inr (dominant_category, max_score)))
          in if has_extreme
             then
               and_then (get_scores scores
                           (filter (\<lambda>cat. cat \<in> set dominant) extreme_categories))
                 (\<lambda>extreme_scores.
                    if extreme_scores \<noteq> []
                    then and_then (max_by_value extreme_scores) (\<lambda>best.
                         and_then (get_score scores (fst best)) (\<lambda>confidence.
                           Inr (fst best, confidence)))
                    else rest)
             else rest))"

section \<open>The handler of \<^verbatim>\<open>POST /analyze\<close> in \<^verbatim>\<open>main.py\<close>\<close>

datatype http_error = HTTPException (status_code: nat) (detail: string)

record bias_analysis =
  analysis_text :: string
  bias_scores :: scores
  overall_bias :: string
  confidence :: rat
  detected_phrases :: detected

text \<open>\<^verbatim>\<open>str(e)\<close> for the exceptions of the engine (the messages of CPython 3.11).\<close>

fun str_of_error :: "error \<Rightarrow> string" where
  "str_of_error ZeroDivisionError = ''division by zero''"
| "str_of_error ValueError = ''max() arg is an empty sequence''"
| "str_of_error IndexError = ''list index out of range''"
| "str_of_error (KeyError k) = [CHR 0x27] @ k @ [CHR 0x27]"

text \<open>
  The handler returns its response together with the trace of what it did: the log
  records it wrote and the calls into the engine, in order.
\<close>

datatype event =
    Log_info_received
  | Log_warning_empty_text
  | Call_calculate_bias_scores
  | Call_determine_overall_bias
  | Log_info_complete
  | Log_error

definition analyze_text :: "bias_keywords \<Rightarrow> string \<Rightarrow> event list \<times> (http_error + bias_analysis)" where
  "analyze_text kw input_text =
     (if strip input_text = []
      then ([Log_info_received, Log_warning_empty_text],
            Inl (HTTPException 400 ''Text cannot be empty''))
      else
        (case calculate_bias_scores kw input_text of
           Inl e \<Rightarrow>
             ([Log_info_received, Call_calculate_bias_scores, Log_error],
              Inl (HTTPException 500 (''Analysis failed: '' @ str_of_error e)))
         | Inr (scores, detected) \<Rightarrow>
             (case determine_overall_bias scores of
                Inl e \<Rightarrow>
                  ([Log_info_received, Call_calculate_bias_scores,
                    Call_determine_overall_bias, Log_error],
                   Inl (HTTPException 500 (''Analysis failed: '' @ str_of_error e)))
              | Inr (label, conf) \<Rightarrow>
                  ([Log_info_received, Call_calculate_bias_scores,
                    Call_determine_overall_bias, Log_info_complete],
                   Inr \<lparr>analysis_text = input_text, bias_scores = scores, overall_bias = label,
                        confidence = conf, detected_phrases = detected\<rparr>))))"

section \<open>The second engine, \<^verbatim>\<open>server.py\<close>\<close>

text \<open>
  \<^verbatim>\<open>PROCESSED_KEYWORDS\<close> holds each keyword list as a set of lowercased strings. The
  order in which Python iterates a set is not specified; the model iterates the distinct
  elements in the order of their first occurrence. The scores depend on the number of
  matches only.
\<close>

definition processed :: "string list \<Rightarrow> string list" where
  "processed kws = remdups (map lower kws)"

text \<open>
  Lines 38 to 61. \<open>input_words\<close> and \<open>phrase_words\<close> are sets in the source, lists
  without repetition here.
\<close>

fun server_find_phrase_matches_loop ::
  "string \<Rightarrow> string list \<Rightarrow> string list \<Rightarrow> string list \<Rightarrow> string list" where
  "server_find_phrase_matches_loop processed_text input_words [] matches = matches"
| "server_find_phrase_matches_loop processed_text input_words (phrase # phrases) matches =
     (let phrase_lower = lower phrase;
          phrase_words = remdups (str_split phrase_lower)
      in if sublist phrase_lower processed_text
         then server_find_phrase_matches_loop processed_text input_words phrases
                (matches @ [phrase])
         else if length phrase_words = 1
         then
           (if list_ex (\<lambda>input_word. sublist (hd phrase_words) input_word) input_words
            then server_find_phrase_matches_loop processed_text input_words phrases
                   (matches @ [phrase])
            else server_find_phrase_matches_loop processed_text input_words phrases matches)
         else
           (let common_words = filter (\<lambda>w. w \<in> set input_words) phrase_words
            in if (of_nat (length common_words) :: rat)
                    \<ge> max 1 (of_nat (length phrase_words) * (3 / 10))
               then server_find_phrase_matches_loop processed_text input_words phrases
                      (matches @ [phrase])
               else server_find_phrase_matches_loop processed_text input_words phrases
                      matches))"

definition server_find_phrase_matches :: "string \<Rightarrow> string list \<Rightarrow> string list" where
  "server_find_phrase_matches text phrases =
     (let processed_text = lower text;
          input_words = remdups (str_split processed_text)
      in server_find_phrase_matches_loop processed_text input_words phrases [])"

definition server_score_block ::
  "string \<Rightarrow> string list \<Rightarrow> string \<Rightarrow> rat \<Rightarrow> scores \<times> detected \<Rightarrow> scores \<times> detected" where
  "server_score_block text phrases cat weight st =
     (let matches = server_find_phrase_matches text phrases
      in if matches \<noteq> []
         then (add_score cat (of_nat (length matches) * weight) (fst st),
               extend_detected cat matches (snd st))
         else st)"

text \<open>Lines 100 to 102: the baseline added to every category with a positive score.\<close>

definition add_baseline :: "scores \<Rightarrow> scores" where
  "add_baseline scores =
     map (\<lambda>(category, score). (category, if score > 0 then score + 5 / 10 else score)) scores"

definition server_calculate_bias_scores :: "bias_keywords \<Rightarrow> string \<Rightarrow> scores \<times> detected" where
  "server_calculate_bias_scores kw text =
     (let st = (initial_scores, Map.empty);
          st = server_score_block text (processed (extreme_right_keywords kw))
                 ''extreme_right'' 2 st;
          st = server_score_block text (processed (extreme_left_keywords kw))
                 ''extreme_left'' 2 st;
          st = server_score_block text (processed (left_wing_economic kw))
                 ''left_wing'' (12 / 10) st;
          st = server_score_block text (processed (left_wing_social kw))
                 ''left_wing'' (12 / 10) st;
          st = server_score_block text (processed (right_wing_economic kw))
                 ''right_wing'' (12 / 10) st;
          st = server_score_block text (processed (right_wing_social kw))
                 ''right_wing'' (12 / 10) st;
          st = server_score_block text (processed (neutral_terms kw))
                 ''neutral'' (3 / 10) st
      in (normalize (add_baseline (fst st)), snd st))"

text \<open>Lines 112 to 149.\<close>

definition server_determine_overall_bias :: "scores \<Rightarrow> error + string \<times> rat" where
  "server_determine_overall_bias scores =
     and_then (py_max (map snd scores)) (\<lambda>max_score.
       if max_score = 0 then Inr (''neutral'', 0)
       else
         (let threshold = max_score * (5 / 10);
              dominant = map fst (filter (\<lambda>(cat, score). score \<ge> threshold) scores);
              has_extreme = list_ex (\<lambda>cat. cat \<in> set extreme_categories) dominant;
              regular =
                (let non_neutral =
                       filter (\<lambda>(cat, score). score > 0 \<and> cat \<noteq> ''neutral''
                                 \<and> cat \<notin> set extreme_categories) scores;
                     non_neutral_scores =
                       filter (\<lambda>(cat, score). score > 0 \<and> cat \<noteq> ''neutral'') scores
                 in if ''neutral'' \<in> set dominant \<and> non_neutral \<noteq> []
                    then and_then (max_by_value non_neutral) (\<lambda>best. Inr (fst best, max_score))
                    else if non_neutral_scores \<noteq> []
                    then and_then (max_by_value non_neutral_scores)
                           (\<lambda>best. Inr (fst best, max_score))
                    else and_then (max_by_value scores) (\<lambda>best. Inr (fst best, max_score)))
          in if has_extreme
             then
               (if ''extreme_left'' \<in> set dominant \<and> ''extreme_right'' \<in> set dominant
                then Inr (''mixed extreme'', max_score)
                else
                  and_then (get_scores scores extreme_categories) (\<lambda>all_extreme.
                    let extreme_scores = filter (\<lambda>(cat, score). score > 0) all_extreme
                    in if extreme_scores \<noteq> []
                       then and_then (max_by_value extreme_scores)
                              (\<lambda>best. Inr (fst best, max_score))
                       else regular))
             else regular))"

section \<open>The two pipelines\<close>

text \<open>
  Both request handlers compose their scorer with their decision rule; the label and
  the confidence of the response are the result of this composition.
\<close>

definition main_pipeline :: "bias_keywords \<Rightarrow> string \<Rightarrow> error + string \<times> rat" where
  "main_pipeline kw text =
     and_then (calculate_bias_scores kw text) (\<lambda>(scores, detected).
       determine_overall_bias scores)"

definition server_pipeline :: "bias_keywords \<Rightarrow> string \<Rightarrow> error + string \<times> rat" where
  "server_pipeline kw text =
     server_determine_overall_bias (fst (server_calculate_bias_scores kw text))"

section \<open>The matcher as the specification describes it\<close>

text \<open>
  One pass of the loop over the phrase words increments \<open>matched_words\<close> exactly when
  one of the three stages of the source succeeds.
\<close>

definition word_matches :: "string list \<Rightarrow> string \<Rightarrow> bool" where
  "word_matches text_words phrase_word =
     (let text_substrings = text_substrings_of text_words
      in phrase_word \<in> set text_words \<or>
         found_match text_words text_substrings phrase_word \<or>
         variation_match text_words text_substrings phrase_word)"

definition phrase_matches :: "string \<Rightarrow> string list \<Rightarrow> string \<Rightarrow> bool" where
  "phrase_matches text text_words phrase =
     (sublist phrase text \<or>
      (str_split phrase \<noteq> [] \<and>
       (6 / 10 :: rat) \<le> of_nat (length (filter (word_matches text_words) (str_split phrase)))
                            / of_nat (length (str_split phrase))))"

text \<open>
  The three mechanisms of the specification: membership in the token set, containment
  in either direction between the phrase word and a token, one of the six variants in
  the token set.
\<close>

definition word_matched_claim :: "string list \<Rightarrow> string \<Rightarrow> bool" where
  "word_matched_claim tokens w =
     (w \<in> set tokens \<or>
      (\<exists>t\<in>set tokens. sublist w t \<or> sublist t w) \<or>
      (\<exists>v\<in>set (word_variations w). v \<in> set tokens))"

definition phrase_matched_claim :: "string \<Rightarrow> string \<Rightarrow> bool" where
  "phrase_matched_claim text phrase =
     (let tokens = str_split (lower text);
          ws = str_split phrase
      in sublist phrase (lower text) \<or>
         (ws \<noteq> [] \<and>
          (6 / 10 :: rat) \<le> of_nat (length (filter (word_matched_claim tokens) ws))
                               / of_nat (length ws)))"

text \<open>
  The same with the mechanisms the source adds: the phrase word contains a piece of at
  least three characters of a token, or one of its variants is such a piece.
\<close>

definition word_matched_amended :: "string list \<Rightarrow> string \<Rightarrow> bool" where
  "word_matched_amended tokens w =
     (word_matched_claim tokens w \<or>
      (\<exists>sub\<in>set (text_substrings_of tokens). sublist sub w) \<or>
      (\<exists>v\<in>set (word_variations w). v \<in> set (text_substrings_of tokens)))"

definition phrase_matched_amended :: "string \<Rightarrow> string \<Rightarrow> bool" where
  "phrase_matched_amended text phrase =
     (let tokens = str_split (lower text);
          ws = str_split phrase
      in sublist phrase (lower text) \<or>
         (ws \<noteq> [] \<and>
          (6 / 10 :: rat) \<le> of_nat (length (filter (word_matched_amended tokens) ws))
                               / of_nat (length ws)))"

section \<open>Auxiliary notions for the statements\<close>

text \<open>
  The entry of \<open>detected_phrases\<close> for a category whose blocks found the phrases
  \<open>ms\<close>: the key exists only when \<open>ms\<close> is not empty.
\<close>

definition entry :: "string list \<Rightarrow> string list option" where
  "entry ms = (if ms = [] then None else Some ms)"

definition detected_of ::
  "string list \<Rightarrow> string list \<Rightarrow> string list \<Rightarrow> string list \<Rightarrow> string list \<Rightarrow> detected" where
  "detected_of m_er m_el m_lw m_rw m_n =
     (\<lambda>cat. if cat = ''extreme_right'' then entry m_er
            else if cat = ''extreme_left'' then entry m_el
            else if cat = ''left_wing'' then entry m_lw
            else if cat = ''right_wing'' then entry m_rw
            else if cat = ''neutral'' then entry m_n
            else None)"


text \<open>A small keyword store on which the engine is run below.\<close>

definition kw_example :: bias_keywords where
  "kw_example =
     \<lparr>extreme_right_keywords = [''ethnostate''],
      extreme_left_keywords = [''vanguard''],
      left_wing_economic = [''welfare''],
      left_wing_social = [''solidarity''],
      right_wing_economic = [''deregulation''],
      right_wing_social = [''patriotism''],
      neutral_terms = [''report'']\<rparr>"

section \<open>The normalisation in binary floating point\<close>

text \<open>
  Python computes the quotients of lines 177 and 178 in IEEE 754 binary64: the exact
  quotient is rounded to the nearest number with a significand of 53 bits, a tie going
  to the even significand. \<open>round_binary64\<close> is this rounding for the rationals
  of magnitude below \<open>2 ^ 1024\<close> (larger ones overflow to infinity, which does not
  arise below); the exponent of the last place is at least \<open>- 1074\<close>.
\<close>

definition round_half_even :: "rat \<Rightarrow> int" where
  "round_half_even x =
     (let f = \<lfloor>x\<rfloor>; d = x - of_int f
      in if d < 1 / 2 then f
         else if 1 / 2 < d then f + 1
         else if even f then f else f + 1)"

fun bit_length :: "nat \<Rightarrow> nat" where
  "bit_length n = (if n = 0 then 0 else Suc (bit_length (n div 2)))"

definition pow2 :: "int \<Rightarrow> rat" where
  "pow2 e = (if 0 \<le> e then 2 ^ nat e else 1 / 2 ^ nat (- e))"

text \<open>The exponent \<open>e\<close> with \<open>2 ^ e \<le> q < 2 ^ (e + 1)\<close>, for a positive \<open>q\<close>.\<close>

definition binary_exponent :: "rat \<Rightarrow> int" where
  "binary_exponent q =
     (let (a, b) = quotient_of q;
          e = int (bit_length (nat a)) - int (bit_length (nat b))
      in if pow2 e \<le> q then e else e - 1)"

definition round_binary64 :: "rat \<Rightarrow> rat" where
  "round_binary64 q =
     (if q = 0 then 0
      else
        (let u = max (binary_exponent \<bar>q\<bar> - 52) (- 1074)
         in sgn q * of_int (round_half_even (\<bar>q\<bar> / pow2 u)) * pow2 u))"

text \<open>
  Lines 175 to 178 with the arithmetic of Python: \<^verbatim>\<open>sum\<close> adds the values from the
  left, starting at 0, and rounds every sum; every quotient is rounded.
\<close>

definition float_sum :: "rat list \<Rightarrow> rat" where
  "float_sum vs = fold (\<lambda>v acc. round_binary64 (acc + v)) vs 0"

definition normalize_binary64 :: "scores \<Rightarrow> scores" where
  "normalize_binary64 scores =
     (let total_score = float_sum (map snd scores)
      in if total_score > 0
         then map (\<lambda>(category, score). (category, round_binary64 (score / total_score)))
                scores
         else scores)"

text \<open>
  The raw scores are sums of a few multiples of 2, 1 and 0.75, which binary64 represents
  exactly, so lines 124 to 172 are as in the exact model.
\<close>

definition calculate_bias_scores_binary64 ::
  "bias_keywords \<Rightarrow> string \<Rightarrow> error + scores \<times> detected" where
  "calculate_bias_scores_binary64 kw text =
     and_then (raw_bias_scores kw text) (\<lambda>(scores, detected_phrases).
       Inr (normalize_binary64 scores, detected_phrases))"

section \<open>Properties of the phrase matcher\<close>

lemma count_matched_words_filter:
  "count_matched_words tw (text_substrings_of tw) ws n =
     n + length (filter (word_matches tw) ws)"
  by (induction ws arbitrary: n) (auto simp: word_matches_def)

text \<open>The pieces of the text words: every contiguous piece of at least three characters.\<close>

lemma text_substrings_of_iff:
  "s \<in> set (text_substrings_of tw) \<longleftrightarrow> 3 \<le> length s \<and> (\<exists>w\<in>set tw. sublist s w)"
proof
  assume "s \<in> set (text_substrings_of tw)"
  then obtain w i j where w: "w \<in> set tw" and i: "i < length w"
    and j: "i + 3 \<le> j" "j \<le> length w" and s: "s = take (j - i) (drop i w)"
    by (auto simp: text_substrings_of_def)
  have "sublist s (drop i w)" unfolding s by (rule sublist_take)
  moreover have "sublist (drop i w) w" by (rule sublist_drop)
  ultimately have "sublist s w" by (rule sublist_order.order_trans)
  moreover have "3 \<le> length s" using i j by (simp add: s)
  ultimately show "3 \<le> length s \<and> (\<exists>w\<in>set tw. sublist s w)" using w by blast
next
  assume "3 \<le> length s \<and> (\<exists>w\<in>set tw. sublist s w)"
  then obtain w ps ss where len: "3 \<le> length s" and w: "w \<in> set tw" and eq: "w = ps @ s @ ss"
    by (auto simp: sublist_def)
  let ?i = "length ps" and ?j = "length ps + length s"
  have "s = take (?j - ?i) (drop ?i w)" by (simp add: eq)
  moreover have "?i < length w" "?i + 3 \<le> ?j" "?j \<le> length w" using len by (auto simp: eq)
  ultimately show "s \<in> set (text_substrings_of tw)"
    using w unfolding text_substrings_of_def
    apply (simp)
    apply (rule bexI[of _ w])
     apply (rule bexI[of _ "?i"])
    apply (rule image_eqI[of _ _ "?j"])
    by auto
qed

lemma found_match_iff:
  "found_match tw (text_substrings_of tw) w \<longleftrightarrow>
     (\<exists>t\<in>set tw. sublist w t \<or> sublist t w) \<or>
     (\<exists>sub\<in>set (text_substrings_of tw). sublist sub w)"
proof -
  have len: "filter (\<lambda>sub. 3 \<le> length sub) (text_substrings_of tw) = text_substrings_of tw"
    by (simp add: text_substrings_of_iff)
  have ne: "tw \<noteq> []" if "sub \<in> set (text_substrings_of tw)" for sub
    using that by (auto simp: text_substrings_of_iff)
  have self: "\<exists>sub\<in>set (text_substrings_of tw). sublist sub w" if "w \<in> set (text_substrings_of tw)"
    using that by blast
  show ?thesis
    unfolding found_match_def len list_ex_iff
    using ne self by (cases tw) auto
qed

lemma word_matches_amended: "word_matches tw w \<longleftrightarrow> word_matched_amended tw w"
  unfolding word_matches_def Let_def found_match_iff variation_match_def list_ex_iff
    word_matched_amended_def word_matched_claim_def
  by blast

lemma find_phrase_matches_loop_filter:
  assumes "\<forall>p\<in>set phrases. sublist (lower p) text \<or> str_split (lower p) \<noteq> []"
  shows "find_phrase_matches_loop text tw phrases matches =
     Inr (matches @ filter (phrase_matches text tw) (map lower phrases))"
  using assms
proof (induction phrases arbitrary: matches)
  case Nil
  then show ?case by simp
next
  case (Cons p phrases)
  then have ih: "\<And>ms. find_phrase_matches_loop text tw phrases ms =
     Inr (ms @ filter (phrase_matches text tw) (map lower phrases))"
    by simp
  from Cons.prems have ok: "sublist (lower p) text \<or> str_split (lower p) \<noteq> []"
    by simp
  show ?case
  proof (cases "sublist (lower p) text")
    case True
    moreover from True have "phrase_matches text tw (lower p)"
      by (simp add: phrase_matches_def)
    ultimately show ?thesis by (simp add: ih)
  next
    case False
    with ok have ne: "str_split (lower p) \<noteq> []" by simp
    have "phrase_matches text tw (lower p) \<longleftrightarrow>
       (6 / 10 :: rat) \<le> of_nat (length (filter (word_matches tw) (str_split (lower p))))
                            / of_nat (length (str_split (lower p)))"
      using False ne by (simp add: phrase_matches_def)
    with False ne show ?thesis
      by (simp add: ih Let_def match_ratio_def count_matched_words_filter)
  qed
qed

lemma find_phrase_matches_filter:
  assumes "\<forall>p\<in>set phrases. sublist (lower p) (lower text) \<or> str_split (lower p) \<noteq> []"
  shows "find_phrase_matches text phrases =
     Inr (filter (phrase_matches (lower text) (str_split (lower text))) (map lower phrases))"
  using find_phrase_matches_loop_filter [OF assms, of "str_split (lower text)" "[]"]
  by (simp add: find_phrase_matches_def Let_def)

section \<open>Properties of the scorer and of the decision rule\<close>

lemma add_score_zero: "add_score cat 0 sc = sc"
  by (induction sc) auto

lemma score_block_Inr:
  assumes "find_phrase_matches text phrases = Inr m"
  shows "score_block text phrases cat w (sc, \<lambda>c. entry (f c)) =
           Inr (add_score cat (of_nat (length m) * w) sc, \<lambda>c. entry ((f(cat := f cat @ m)) c))"
proof (cases "m = []")
  case True
  then show ?thesis
    using assms by (simp add: score_block_def and_then_def add_score_zero)
next
  case False
  have "extend_detected cat m (\<lambda>c. entry (f c)) = (\<lambda>c. entry ((f(cat := f cat @ m)) c))"
    using False by (auto simp: extend_detected_def entry_def fun_eq_iff)
  with False show ?thesis
    using assms by (simp add: score_block_def and_then_def)
qed

lemma raw_bias_scores_result:
  assumes er: "find_phrase_matches text (extreme_right_keywords kw) = Inr m_er"
    and el: "find_phrase_matches text (extreme_left_keywords kw) = Inr m_el"
    and le: "find_phrase_matches text (left_wing_economic kw) = Inr m_le"
    and ls: "find_phrase_matches text (left_wing_social kw) = Inr m_ls"
    and re: "find_phrase_matches text (right_wing_economic kw) = Inr m_re"
    and rs: "find_phrase_matches text (right_wing_social kw) = Inr m_rs"
    and n: "find_phrase_matches text (neutral_terms kw) = Inr m_n"
  shows "raw_bias_scores kw text =
    Inr ([(''left_wing'', of_nat (length m_le) + of_nat (length m_ls)),
          (''right_wing'', of_nat (length m_re) + of_nat (length m_rs)),
          (''extreme_left'', of_nat (length m_el) * 2),
          (''extreme_right'', of_nat (length m_er) * 2),
          (''neutral'', of_nat (length m_n) * (75 / 100))],
         detected_of m_er m_el (m_le @ m_ls) (m_re @ m_rs) m_n)"
proof -
  have empty: "(Map.empty :: detected) = (\<lambda>c. entry ((\<lambda>_. []) c))"
    by (simp add: entry_def)
  have d: "(\<lambda>c. entry (((\<lambda>_. [])(''extreme_right'' := m_er, ''extreme_left'' := m_el,
              ''left_wing'' := m_le @ m_ls, ''right_wing'' := m_re @ m_rs, ''neutral'' := m_n)) c))
           = detected_of m_er m_el (m_le @ m_ls) (m_re @ m_rs) m_n"
    by (auto simp: detected_of_def fun_eq_iff entry_def)
  show ?thesis
    unfolding raw_bias_scores_def empty
    by (simp add: score_block_Inr [OF er] score_block_Inr [OF el] score_block_Inr [OF le]
        score_block_Inr [OF ls] score_block_Inr [OF re] score_block_Inr [OF rs]
        score_block_Inr [OF n] and_then_def initial_scores_def d [symmetric] fun_upd_def fun_eq_iff)
qed


lemma sum_list_divide: "sum_list (map (\<lambda>x. f x / t) xs) = sum_list (map f xs) / (t :: rat)"
  by (induction xs) (simp_all add: add_divide_distrib)

lemma normalize_sum:
  assumes "0 < sum_list (map snd sc)"
  shows "sum_list (map snd (normalize sc)) = 1"
proof -
  have "map snd (map (\<lambda>(category, score). (category, score / sum_list (map snd sc))) sc)
        = map (\<lambda>x. snd x / sum_list (map snd sc)) sc"
    by (simp add: case_prod_beta)
  then have "sum_list (map snd (normalize sc)) = sum_list (map snd sc) / sum_list (map snd sc)"
    using assms by (simp only: normalize_def Let_def if_True sum_list_divide)
  with assms show ?thesis by simp
qed

lemma normalize_nonneg:
  assumes "\<forall>v\<in>set (map snd sc). 0 \<le> v"
  shows "\<forall>v\<in>set (map snd (normalize sc)). 0 \<le> v"
  using assms by (auto simp: normalize_def Let_def)

lemma normalize_keys: "map fst (normalize sc) = map fst sc"
  by (simp add: normalize_def Let_def case_prod_beta)

lemma normalize_unchanged: "sum_list (map snd sc) \<le> 0 \<Longrightarrow> normalize sc = sc"
  by (simp add: normalize_def Let_def)

lemma py_max_Inr:
  assumes "py_max vs = Inr m"
  shows "m \<in> set vs" and "\<forall>v\<in>set vs. v \<le> m"
proof -
  from assms obtain x xs where vs: "vs = x # xs" and m: "m = fold max xs x"
    by (cases vs) auto
  have "m = Max (set vs)" by (simp only: vs m Max.set_eq_fold)
  then show "m \<in> set vs" and "\<forall>v\<in>set vs. v \<le> m"
    using vs by (auto intro: Max_in simp del: set_simps)
qed

lemma py_max_nonempty: "vs \<noteq> [] \<Longrightarrow> \<exists>m. py_max vs = Inr m"
  by (cases vs) auto

lemma fold_best_in:
  "fold (\<lambda>y best. if snd best < snd y then y else best) xs x \<in> set (x # xs)"
  by (induction xs arbitrary: x) (auto split: if_splits)

lemma max_by_value_in:
  assumes "es \<noteq> []"
  shows "\<exists>best. max_by_value es = Inr best \<and> best \<in> set es"
proof -
  from assms obtain x xs where "es = x # xs" by (cases es) auto
  then show ?thesis using fold_best_in [of xs x] by simp
qed

lemma get_score_Inr: "map_of scores cat = Some v \<Longrightarrow> get_score scores cat = Inr v"
  by (simp add: get_score_def)

lemma get_scores_keys:
  assumes "\<forall>c\<in>set cats. c \<in> fst ` set scores"
  shows "\<exists>es. get_scores scores cats = Inr es \<and> map fst es = cats"
  using assms
proof (induction cats)
  case Nil
  then show ?case by simp
next
  case (Cons c cats)
  then obtain es where es: "get_scores scores cats = Inr es" "map fst es = cats" by auto
  from Cons.prems have "c \<in> fst ` set scores" by simp
  then obtain v where "map_of scores c = Some v"
    by (metis domD dom_map_of_conv_image_fst)
  with es show ?case by (simp add: get_score_def and_then_def)
qed

lemma dominant_subset: "set (dominant_categories scores m) \<subseteq> fst ` set scores"
  by (auto simp: dominant_categories_def Let_def)

lemma dominant_nonempty:
  assumes "py_max (map snd scores) = Inr m" and "0 < m"
  shows "dominant_categories scores m \<noteq> []"
proof -
  from py_max_Inr(1) [OF assms(1)] obtain c where c: "(c, m) \<in> set scores" by auto
  have "m * (85 / 100) \<le> m" using assms(2) by simp
  with c have "c \<in> set (dominant_categories scores m)"
    by (force simp: dominant_categories_def Let_def)
  then show ?thesis by auto
qed


lemma dominant_iff:
  assumes "distinct (map fst scores)" and "map_of scores c = Some v"
  shows "c \<in> set (dominant_categories scores m) \<longleftrightarrow> m * (85 / 100) \<le> v"
proof -
  have "c \<in> set (dominant_categories scores m) \<longleftrightarrow>
          (\<exists>s. (c, s) \<in> set scores \<and> m * (85 / 100) \<le> s)"
    by (force simp: dominant_categories_def Let_def)
  also have "\<dots> \<longleftrightarrow> m * (85 / 100) \<le> v"
  proof -
    have "(c, s) \<in> set scores \<longleftrightarrow> s = v" for s
      using assms by (metis map_of_eq_Some_iff option.inject)
    then show ?thesis by simp
  qed
  finally show ?thesis .
qed
lemma detected_of_dom:
  "cat \<in> dom (detected_of m_er m_el m_lw m_rw m_n) \<longleftrightarrow>
     cat = ''extreme_right'' \<and> m_er \<noteq> [] \<or>
     cat = ''extreme_left'' \<and> m_el \<noteq> [] \<or>
     cat = ''left_wing'' \<and> m_lw \<noteq> [] \<or>
     cat = ''right_wing'' \<and> m_rw \<noteq> [] \<or>
     cat = ''neutral'' \<and> m_n \<noteq> []"
proof -
  have ne: "''extreme_right'' \<noteq> ''extreme_left''" "''extreme_right'' \<noteq> ''left_wing''"
    "''extreme_right'' \<noteq> ''right_wing''" "''extreme_right'' \<noteq> ''neutral''"
    "''extreme_left'' \<noteq> ''left_wing''" "''extreme_left'' \<noteq> ''right_wing''"
    "''extreme_left'' \<noteq> ''neutral''" "''left_wing'' \<noteq> ''right_wing''"
    "''left_wing'' \<noteq> ''neutral''" "''right_wing'' \<noteq> ''neutral''"
    by simp_all
  consider "cat = ''extreme_right''" | "cat = ''extreme_left''" | "cat = ''left_wing''"
    | "cat = ''right_wing''" | "cat = ''neutral''"
    | "cat \<noteq> ''extreme_right''" "cat \<noteq> ''extreme_left''" "cat \<noteq> ''left_wing''"
      "cat \<noteq> ''right_wing''" "cat \<noteq> ''neutral''"
    by blast
  then show ?thesis
  proof cases
    case 1 then show ?thesis by (simp add: detected_of_def entry_def dom_def)
  next
    case 2 then show ?thesis by (simp add: detected_of_def entry_def dom_def)
  next
    case 3 then show ?thesis by (simp add: detected_of_def entry_def dom_def)
  next
    case 4 then show ?thesis by (simp add: detected_of_def entry_def dom_def)
  next
    case 5 then show ?thesis by (simp add: detected_of_def entry_def dom_def)
  next
    case 6 then show ?thesis by (simp add: detected_of_def entry_def dom_def)
  qed
qed

lemma detected_of_not_empty: "detected_of m_er m_el m_lw m_rw m_n cat \<noteq> Some []"
  by (simp add: detected_of_def entry_def)

lemma calculate_bias_scores_result:
  assumes er: "find_phrase_matches text (extreme_right_keywords kw) = Inr m_er"
    and el: "find_phrase_matches text (extreme_left_keywords kw) = Inr m_el"
    and le: "find_phrase_matches text (left_wing_economic kw) = Inr m_le"
    and ls: "find_phrase_matches text (left_wing_social kw) = Inr m_ls"
    and re: "find_phrase_matches text (right_wing_economic kw) = Inr m_re"
    and rs: "find_phrase_matches text (right_wing_social kw) = Inr m_rs"
    and n: "find_phrase_matches text (neutral_terms kw) = Inr m_n"
  shows "calculate_bias_scores kw text =
    Inr (normalize
          [(''left_wing'', of_nat (length m_le) + of_nat (length m_ls)),
           (''right_wing'', of_nat (length m_re) + of_nat (length m_rs)),
           (''extreme_left'', of_nat (length m_el) * 2),
           (''extreme_right'', of_nat (length m_er) * 2),
           (''neutral'', of_nat (length m_n) * (75 / 100))],
         detected_of m_er m_el (m_le @ m_ls) (m_re @ m_rs) m_n)"
  by (simp only: calculate_bias_scores_def raw_bias_scores_result [OF er el le ls re rs n]
      and_then_def sum.case prod.case)

section \<open>Claims about the phrase matcher\<close>

text \<open>
  Claim C1, as amended. For every text and every list of candidate phrases in which each
  phrase has a word or occurs verbatim in the lowercased text, \<open>find_phrase_matches\<close>
  returns, in the order of the candidates, the lowercased phrases that occur verbatim in
  the lowercased text or have at least 60 percent of their words matched. A word is
  matched by membership in the token set, by containment in either direction between
  the word and a token, by one of the six variants being a token, and also when the
  word contains a piece of at least three characters of a token or one of the variants
  is such a piece.
\<close>

theorem find_phrase_matches_amended:
  assumes "\<forall>p\<in>set phrases. sublist (lower p) (lower text) \<or> str_split (lower p) \<noteq> []"
  shows "find_phrase_matches text phrases =
           Inr (filter (phrase_matched_amended text) (map lower phrases))"
proof -
  have eq: "word_matches (str_split (lower text)) = word_matched_amended (str_split (lower text))"
    by (rule ext) (rule word_matches_amended)
  have "phrase_matched_amended text = phrase_matches (lower text) (str_split (lower text))"
    by (rule ext) (simp add: phrase_matched_amended_def phrase_matches_def Let_def eq)
  then show ?thesis
    using find_phrase_matches_filter [OF assms] by simp
qed

theorem find_phrase_matches_amended_witness:
  "find_phrase_matches ''The National debate''
       [''Nationwide'', ''radical leftist'', ''debate club'', ''''] =
     Inr [''nationwide'', '''']"
proof -
  have h: "\<forall>p\<in>set [''Nationwide'', ''radical leftist'', ''debate club'', ''''].
             sublist (lower p) (lower ''The National debate'') \<or> str_split (lower p) \<noteq> []"
    by code_simp
  have "filter (phrase_matched_amended ''The National debate'')
          (map lower [''Nationwide'', ''radical leftist'', ''debate club'', ''''])
        = [''nationwide'', '''']"
    by code_simp
  with find_phrase_matches_amended [OF h] show ?thesis by simp
qed

text \<open>
  The claim as stated, with the three mechanisms only, fails: \<open>nationwide\<close> and the
  token \<open>national\<close> share the piece \<open>nation\<close>, neither contains the other, and no
  variant of \<open>nationwide\<close> is a token.
\<close>

theorem find_phrase_matches_claim_counterexample:
  "find_phrase_matches ''national'' [''nationwide''] = Inr [''nationwide''] \<and>
   \<not> phrase_matched_claim ''national'' ''nationwide''"
  by code_simp




section \<open>Claims about the scorer\<close>

text \<open>
  The seven calls of the matcher are the hypotheses of the next three theorems: when
  they return the lists \<open>m_er\<close>, \<open>m_el\<close>, \<open>m_le\<close>, \<open>m_ls\<close>, \<open>m_re\<close>, \<open>m_rs\<close> and
  \<open>m_n\<close>, the scorer returns as well, with the stated result.
\<close>

text \<open>
  Claim C4. The raw scores are 2 times the number of matches for each extreme category,
  1 times the number of matches of both sub-lists for each wing, and 0.75 times the
  number of matches for the neutral terms; the detected phrases of a wing are the
  matches of its economic list followed by those of its social list, under the name of
  the wing.
\<close>

theorem raw_scores_weights:
  assumes er: "find_phrase_matches text (extreme_right_keywords kw) = Inr m_er"
    and el: "find_phrase_matches text (extreme_left_keywords kw) = Inr m_el"
    and le: "find_phrase_matches text (left_wing_economic kw) = Inr m_le"
    and ls: "find_phrase_matches text (left_wing_social kw) = Inr m_ls"
    and re: "find_phrase_matches text (right_wing_economic kw) = Inr m_re"
    and rs: "find_phrase_matches text (right_wing_social kw) = Inr m_rs"
    and n: "find_phrase_matches text (neutral_terms kw) = Inr m_n"
  shows "\<exists>raw. raw_bias_scores kw text =
             Inr (raw, detected_of m_er m_el (m_le @ m_ls) (m_re @ m_rs) m_n) \<and>
           raw = [(''left_wing'', 1 * of_nat (length m_le + length m_ls)),
                  (''right_wing'', 1 * of_nat (length m_re + length m_rs)),
                  (''extreme_left'', 2 * of_nat (length m_el)),
                  (''extreme_right'', 2 * of_nat (length m_er)),
                  (''neutral'', (75 / 100) * of_nat (length m_n))] \<and>
           calculate_bias_scores kw text =
             Inr (normalize raw, detected_of m_er m_el (m_le @ m_ls) (m_re @ m_rs) m_n)"
  by (simp add: raw_bias_scores_result [OF er el le ls re rs n] calculate_bias_scores_def
      and_then_def)

lemma example_matches:
  "find_phrase_matches ''welfare report and solidarity'' (extreme_right_keywords kw_example) = Inr []"
  "find_phrase_matches ''welfare report and solidarity'' (extreme_left_keywords kw_example) = Inr []"
  "find_phrase_matches ''welfare report and solidarity'' (left_wing_economic kw_example) = Inr [''welfare'']"
  "find_phrase_matches ''welfare report and solidarity'' (left_wing_social kw_example) = Inr [''solidarity'']"
  "find_phrase_matches ''welfare report and solidarity'' (right_wing_economic kw_example) = Inr []"
  "find_phrase_matches ''welfare report and solidarity'' (right_wing_social kw_example) = Inr []"
  "find_phrase_matches ''welfare report and solidarity'' (neutral_terms kw_example) = Inr [''report'']"
  by code_simp+

theorem raw_scores_weights_witness:
  "raw_bias_scores kw_example ''welfare report and solidarity'' =
     Inr ([(''left_wing'', 2), (''right_wing'', 0), (''extreme_left'', 0),
           (''extreme_right'', 0), (''neutral'', 3 / 4)],
          detected_of [] [] [''welfare'', ''solidarity''] [] [''report''])"
proof -
  from raw_scores_weights [OF example_matches] obtain raw where
    r: "raw_bias_scores kw_example ''welfare report and solidarity'' =
          Inr (raw, detected_of [] [] ([''welfare''] @ [''solidarity'']) ([] @ []) [''report''])"
    and v: "raw = [(''left_wing'', 1 * of_nat (length [''welfare''] + length [''solidarity''])),
                  (''right_wing'', 1 * of_nat (length ([] :: string list) + length ([] :: string list))),
                  (''extreme_left'', 2 * of_nat (length ([] :: string list))),
                  (''extreme_right'', 2 * of_nat (length ([] :: string list))),
                  (''neutral'', (75 / 100) * of_nat (length [''report'']))]"
    by blast
  have "raw = [(''left_wing'', 2), (''right_wing'', 0), (''extreme_left'', 0),
           (''extreme_right'', 0), (''neutral'', 3 / 4)]"
    unfolding v by simp
  moreover have "([''welfare''] @ [''solidarity'']) = [''welfare'', ''solidarity'']"
    and "([] :: string list) @ [] = []"
    by simp_all
  ultimately show ?thesis using r by (simp only:)
qed


text \<open>
  Claim C3, as amended. The returned scores are not negative; they are all 0 when no
  phrase matched; when a phrase matched, each is its raw score divided by the sum of the
  raw scores, so that in exact arithmetic the five values sum to 1.
\<close>

theorem normalized_scores_exact:
  assumes er: "find_phrase_matches text (extreme_right_keywords kw) = Inr m_er"
    and el: "find_phrase_matches text (extreme_left_keywords kw) = Inr m_el"
    and le: "find_phrase_matches text (left_wing_economic kw) = Inr m_le"
    and ls: "find_phrase_matches text (left_wing_social kw) = Inr m_ls"
    and re: "find_phrase_matches text (right_wing_economic kw) = Inr m_re"
    and rs: "find_phrase_matches text (right_wing_social kw) = Inr m_rs"
    and n: "find_phrase_matches text (neutral_terms kw) = Inr m_n"
  shows "\<exists>scores detected.
           calculate_bias_scores kw text = Inr (scores, detected) \<and>
           map fst scores =
             [''left_wing'', ''right_wing'', ''extreme_left'', ''extreme_right'', ''neutral''] \<and>
           (\<forall>v\<in>set (map snd scores). 0 \<le> v) \<and>
           (m_er @ m_el @ m_le @ m_ls @ m_re @ m_rs @ m_n \<noteq> [] \<longrightarrow>
              sum_list (map snd scores) = 1) \<and>
           (m_er @ m_el @ m_le @ m_ls @ m_re @ m_rs @ m_n = [] \<longrightarrow>
              (\<forall>v\<in>set (map snd scores). v = 0))"
proof (intro exI conjI impI)
  let ?raw = "[(''left_wing'', of_nat (length m_le) + of_nat (length m_ls)),
          (''right_wing'', of_nat (length m_re) + of_nat (length m_rs)),
          (''extreme_left'', of_nat (length m_el) * 2),
          (''extreme_right'', of_nat (length m_er) * 2),
          (''neutral'', of_nat (length m_n) * (75 / 100 :: rat))]"
  show "calculate_bias_scores kw text =
      Inr (normalize ?raw, detected_of m_er m_el (m_le @ m_ls) (m_re @ m_rs) m_n)"
    by (rule calculate_bias_scores_result [OF er el le ls re rs n])
  show "map fst (normalize ?raw) =
      [''left_wing'', ''right_wing'', ''extreme_left'', ''extreme_right'', ''neutral'']"
    by (simp only: normalize_keys list.map fst_conv)
  have "\<forall>v\<in>set (map snd ?raw). 0 \<le> v" by simp
  then show "\<forall>v\<in>set (map snd (normalize ?raw)). 0 \<le> v"
    by (rule normalize_nonneg)
  show "sum_list (map snd (normalize ?raw)) = 1"
    if "m_er @ m_el @ m_le @ m_ls @ m_re @ m_rs @ m_n \<noteq> []"
  proof (rule normalize_sum)
    from that have "0 < length m_er + length m_el + length m_le + length m_ls
        + length m_re + length m_rs + length m_n"
      by auto
    then have "(0 :: rat) < of_nat (length m_er) + of_nat (length m_el) + of_nat (length m_le)
        + of_nat (length m_ls) + of_nat (length m_re) + of_nat (length m_rs)
        + of_nat (length m_n)"
      by (simp only: of_nat_add [symmetric] of_nat_0_less_iff)
    then show "0 < sum_list (map snd ?raw)" by simp
  qed
  show "\<forall>v\<in>set (map snd (normalize ?raw)). v = 0"
    if "m_er @ m_el @ m_le @ m_ls @ m_re @ m_rs @ m_n = []"
  proof -
    from that have "?raw = [(''left_wing'', 0), (''right_wing'', 0), (''extreme_left'', 0),
        (''extreme_right'', 0), (''neutral'', 0)]"
      by simp
    then show ?thesis by (simp add: normalize_def)
  qed
qed

theorem normalized_scores_exact_witness:
  "\<exists>scores detected.
     calculate_bias_scores kw_example ''welfare report and solidarity'' = Inr (scores, detected) \<and>
     (\<forall>v\<in>set (map snd scores). 0 \<le> v) \<and> sum_list (map snd scores) = 1"
proof -
  have ne: "([] :: string list) @ [] @ [''welfare''] @ [''solidarity''] @ [] @ [] @ [''report''] \<noteq> []"
    by simp
  from normalized_scores_exact [OF example_matches] ne show ?thesis
    by blast
qed

text \<open>
  In binary64 the sum is not exactly 1. Two matches for \<open>left_wing\<close> and one for each
  of \<open>right_wing\<close>, \<open>extreme_left\<close> and \<open>extreme_right\<close> give the raw scores 2, 1, 2
  and 2; the quotients 2/7 and 1/7 are rounded down, and the five returned values sum to
  \<open>1 - 1 / 2 ^ 54\<close>.
\<close>

lemma binary64_example_matches:
  "find_phrase_matches ''welfare solidarity patriotism vanguard ethnostate''
     (extreme_right_keywords kw_example) = Inr [''ethnostate'']"
  "find_phrase_matches ''welfare solidarity patriotism vanguard ethnostate''
     (extreme_left_keywords kw_example) = Inr [''vanguard'']"
  "find_phrase_matches ''welfare solidarity patriotism vanguard ethnostate''
     (left_wing_economic kw_example) = Inr [''welfare'']"
  "find_phrase_matches ''welfare solidarity patriotism vanguard ethnostate''
     (left_wing_social kw_example) = Inr [''solidarity'']"
  "find_phrase_matches ''welfare solidarity patriotism vanguard ethnostate''
     (right_wing_economic kw_example) = Inr []"
  "find_phrase_matches ''welfare solidarity patriotism vanguard ethnostate''
     (right_wing_social kw_example) = Inr [''patriotism'']"
  "find_phrase_matches ''welfare solidarity patriotism vanguard ethnostate''
     (neutral_terms kw_example) = Inr []"
  by code_simp+

lemma normalize_binary64_example:
  "normalize_binary64
     [(''left_wing'', 2), (''right_wing'', 1), (''extreme_left'', 2),
      (''extreme_right'', 2), (''neutral'', 0)] =
     [(''left_wing'', 2573485501354569 / 9007199254740992),
      (''right_wing'', 2573485501354569 / 18014398509481984),
      (''extreme_left'', 2573485501354569 / 9007199254740992),
      (''extreme_right'', 2573485501354569 / 9007199254740992),
      (''neutral'', 0)]"
  by code_simp

theorem normalized_scores_binary64_counterexample:
  "calculate_bias_scores_binary64 kw_example
       ''welfare solidarity patriotism vanguard ethnostate'' =
     Inr ([(''left_wing'', 2573485501354569 / 9007199254740992),
           (''right_wing'', 2573485501354569 / 18014398509481984),
           (''extreme_left'', 2573485501354569 / 9007199254740992),
           (''extreme_right'', 2573485501354569 / 9007199254740992),
           (''neutral'', 0)],
          detected_of [''ethnostate''] [''vanguard''] [''welfare'', ''solidarity'']
            [''patriotism''] []) \<and>
   sum_list (map snd
     [(''left_wing'', 2573485501354569 / 9007199254740992 :: rat),
      (''right_wing'', 2573485501354569 / 18014398509481984),
      (''extreme_left'', 2573485501354569 / 9007199254740992),
      (''extreme_right'', 2573485501354569 / 9007199254740992),
      (''neutral'', 0)]) \<noteq> 1"
proof -
  have "raw_bias_scores kw_example ''welfare solidarity patriotism vanguard ethnostate'' =
      Inr ([(''left_wing'', 2), (''right_wing'', 1), (''extreme_left'', 2),
            (''extreme_right'', 2), (''neutral'', 0)],
           detected_of [''ethnostate''] [''vanguard''] [''welfare'', ''solidarity'']
            [''patriotism''] [])"
    using raw_bias_scores_result [OF binary64_example_matches] by simp
  then show ?thesis
    by (simp add: calculate_bias_scores_binary64_def and_then_def normalize_binary64_example)
qed


text \<open>
  Claim C10. A category is a key of the returned \<open>detected_phrases\<close> exactly when one
  of its blocks matched a phrase; no key is mapped to the empty list.
\<close>

theorem detected_phrases_keys:
  assumes er: "find_phrase_matches text (extreme_right_keywords kw) = Inr m_er"
    and el: "find_phrase_matches text (extreme_left_keywords kw) = Inr m_el"
    and le: "find_phrase_matches text (left_wing_economic kw) = Inr m_le"
    and ls: "find_phrase_matches text (left_wing_social kw) = Inr m_ls"
    and re: "find_phrase_matches text (right_wing_economic kw) = Inr m_re"
    and rs: "find_phrase_matches text (right_wing_social kw) = Inr m_rs"
    and n: "find_phrase_matches text (neutral_terms kw) = Inr m_n"
  shows "\<exists>scores detected.
           calculate_bias_scores kw text = Inr (scores, detected) \<and>
           dom detected =
             {cat. cat = ''extreme_right'' \<and> m_er \<noteq> [] \<or>
                   cat = ''extreme_left'' \<and> m_el \<noteq> [] \<or>
                   cat = ''left_wing'' \<and> (m_le \<noteq> [] \<or> m_ls \<noteq> []) \<or>
                   cat = ''right_wing'' \<and> (m_re \<noteq> [] \<or> m_rs \<noteq> []) \<or>
                   cat = ''neutral'' \<and> m_n \<noteq> []} \<and>
           (\<forall>cat. detected cat \<noteq> Some [])"
proof (intro exI conjI)
  let ?d = "detected_of m_er m_el (m_le @ m_ls) (m_re @ m_rs) m_n"
  show "calculate_bias_scores kw text =
      Inr (normalize
            [(''left_wing'', of_nat (length m_le) + of_nat (length m_ls)),
             (''right_wing'', of_nat (length m_re) + of_nat (length m_rs)),
             (''extreme_left'', of_nat (length m_el) * 2),
             (''extreme_right'', of_nat (length m_er) * 2),
             (''neutral'', of_nat (length m_n) * (75 / 100))], ?d)"
    by (rule calculate_bias_scores_result [OF er el le ls re rs n])
  show "dom ?d =
             {cat. cat = ''extreme_right'' \<and> m_er \<noteq> [] \<or>
                   cat = ''extreme_left'' \<and> m_el \<noteq> [] \<or>
                   cat = ''left_wing'' \<and> (m_le \<noteq> [] \<or> m_ls \<noteq> []) \<or>
                   cat = ''right_wing'' \<and> (m_re \<noteq> [] \<or> m_rs \<noteq> []) \<or>
                   cat = ''neutral'' \<and> m_n \<noteq> []}"
    by (rule set_eqI) (simp only: detected_of_dom mem_Collect_eq append_is_Nil_conv de_Morgan_conj)
  show "\<forall>cat. ?d cat \<noteq> Some []"
    by (simp only: detected_of_not_empty not_False_eq_True simp_thms)
qed

theorem detected_phrases_keys_witness:
  "\<exists>scores detected.
     calculate_bias_scores kw_example ''welfare report and solidarity'' = Inr (scores, detected) \<and>
     dom detected = {''left_wing'', ''neutral''}"
proof -
  have eq: "{cat. cat = ''extreme_right'' \<and> ([] :: string list) \<noteq> [] \<or>
                   cat = ''extreme_left'' \<and> ([] :: string list) \<noteq> [] \<or>
                   cat = ''left_wing'' \<and> ([''welfare''] \<noteq> [] \<or> [''solidarity''] \<noteq> []) \<or>
                   cat = ''right_wing'' \<and> (([] :: string list) \<noteq> [] \<or> ([] :: string list) \<noteq> []) \<or>
                   cat = ''neutral'' \<and> [''report''] \<noteq> []} = {''left_wing'', ''neutral''}"
    by auto
  have "\<exists>scores detected.
     calculate_bias_scores kw_example ''welfare report and solidarity'' = Inr (scores, detected) \<and>
     dom detected = {''left_wing'', ''neutral''} \<and> (\<forall>cat. detected cat \<noteq> Some [])"
    using detected_phrases_keys [OF example_matches] unfolding eq .
  then obtain scores detected where
    "calculate_bias_scores kw_example ''welfare report and solidarity'' = Inr (scores, detected)"
    "dom detected = {''left_wing'', ''neutral''}"
    by (elim exE conjE)
  then show ?thesis by (intro exI conjI)
qed


section \<open>Claims about the decision rule\<close>

text \<open>
  Claim C9. For every score mapping whose maximum is positive, the list of dominant
  categories is not empty, since the maximum itself is at least 0.85 times the maximum;
  \<open>determine_overall_bias\<close> then returns a result: the index 0 of the last branch
  exists and no lookup fails.
\<close>

theorem determine_overall_bias_total:
  assumes "py_max (map snd scores) = Inr m" and "0 < m"
  shows "dominant_categories scores m \<noteq> [] \<and> (\<exists>r. determine_overall_bias scores = Inr r)"
proof -
  let ?dom = "dominant_categories scores m"
  let ?cats = "filter (\<lambda>cat. cat \<in> set ?dom) extreme_categories"
  have ne: "?dom \<noteq> []" by (rule dominant_nonempty [OF assms])
  have rest: "\<exists>r. (if length ?dom > 1 then Inr (''mixed'', m)
                 else (case ?dom of [] \<Rightarrow> Inl IndexError
                       | dominant_category # _ \<Rightarrow> Inr (dominant_category, m))) = Inr r"
    using ne by (cases ?dom) auto
  have "\<forall>c\<in>set ?cats. c \<in> fst ` set scores"
    using dominant_subset [of scores m] by auto
  from get_scores_keys [OF this] obtain es
    where es: "get_scores scores ?cats = Inr es" "map fst es = ?cats" by blast
  have best: "\<exists>r. and_then (max_by_value es) (\<lambda>best.
                 and_then (get_score scores (fst best)) (\<lambda>confidence.
                   Inr (fst best, confidence))) = Inr r" if "es \<noteq> []"
  proof -
    from max_by_value_in [OF that] obtain b where b: "max_by_value es = Inr b" "b \<in> set es"
      by blast
    then have "fst b \<in> set (map fst es)" by force
    then have "fst b \<in> fst ` set scores"
      using es(2) dominant_subset [of scores m] by auto
    then obtain v where "map_of scores (fst b) = Some v"
      by (metis domD dom_map_of_conv_image_fst)
    with b show ?thesis by (simp add: and_then_def get_score_def)
  qed
  have "\<exists>r. determine_overall_bias scores = Inr r"
    using assms rest best es
    by (auto simp: determine_overall_bias_def and_then_def Let_def)
  with ne show ?thesis by simp
qed

theorem determine_overall_bias_total_witness:
  "py_max (map snd [(''left_wing'', 4 / 7), (''right_wing'', 0), (''extreme_left'', 0),
                    (''extreme_right'', 0), (''neutral'', 3 / 7)]) = Inr (4 / 7) \<and>
   dominant_categories [(''left_wing'', 4 / 7), (''right_wing'', 0), (''extreme_left'', 0),
                        (''extreme_right'', 0), (''neutral'', 3 / 7)] (4 / 7) \<noteq> [] \<and>
   (\<exists>r. determine_overall_bias [(''left_wing'', 4 / 7), (''right_wing'', 0),
           (''extreme_left'', 0), (''extreme_right'', 0), (''neutral'', 3 / 7)] = Inr r)"
proof -
  have h: "py_max (map snd [(''left_wing'', 4 / 7), (''right_wing'', 0), (''extreme_left'', 0),
                    (''extreme_right'', 0), (''neutral'', 3 / 7)]) = Inr (4 / 7)"
    by simp
  have p: "(0 :: rat) < 4 / 7" by simp
  from determine_overall_bias_total [OF h p] h show ?thesis by blast
qed

text \<open>
  Claim C5, as amended. For every score vector whose maximum is not 0 and in which
  \<open>extreme_left\<close> or \<open>extreme_right\<close> scores at least 0.85 times the maximum,
  \<open>determine_overall_bias\<close> returns the dominant extreme category with the higher
  score (\<open>extreme_left\<close> when both are dominant with equal scores), and the confidence
  is the score of that category.
\<close>

theorem determine_overall_bias_extreme:
  assumes d: "distinct (map fst scores)"
    and l: "map_of scores ''extreme_left'' = Some sl"
    and r: "map_of scores ''extreme_right'' = Some sr"
    and m: "py_max (map snd scores) = Inr m"
    and nz: "m \<noteq> 0"
    and dom: "m * (85 / 100) \<le> sl \<or> m * (85 / 100) \<le> sr"
  shows "determine_overall_bias scores =
           Inr (if m * (85 / 100) \<le> sr \<and> (m * (85 / 100) \<le> sl \<longrightarrow> sl < sr)
                then (''extreme_right'', sr) else (''extreme_left'', sl))"
proof -
  note dl = dominant_iff [OF d l, of m] and dr = dominant_iff [OF d r, of m]
  have has: "list_ex (\<lambda>cat. cat \<in> set extreme_categories) (dominant_categories scores m)"
    using dom dl dr by (auto simp: list_ex_iff extreme_categories_def)
  have cats: "filter (\<lambda>cat. cat \<in> set (dominant_categories scores m)) extreme_categories =
      (if m * (85 / 100) \<le> sl then [''extreme_left''] else []) @
      (if m * (85 / 100) \<le> sr then [''extreme_right''] else [])"
    by (simp add: extreme_categories_def dl dr)
  have "determine_overall_bias scores =
      and_then (get_scores scores
          ((if m * (85 / 100) \<le> sl then [''extreme_left''] else []) @
           (if m * (85 / 100) \<le> sr then [''extreme_right''] else [])))
        (\<lambda>extreme_scores.
           and_then (max_by_value extreme_scores) (\<lambda>best.
           and_then (get_score scores (fst best)) (\<lambda>confidence.
             Inr (fst best, confidence))))"
    using dom
    by (simp only: determine_overall_bias_def m and_then_def sum.case nz if_False Let_def
        has if_True cats)
       (auto simp: and_then_def get_score_def l r)
  then show ?thesis
    using dom by (auto simp: and_then_def get_score_def l r)
qed

text \<open>
  Here the confidence 9/20 is the score of \<open>extreme_left\<close>, not the maximum 1/2.
\<close>

theorem determine_overall_bias_extreme_witness:
  "determine_overall_bias [(''left_wing'', 1 / 2), (''right_wing'', 0),
       (''extreme_left'', 9 / 20), (''extreme_right'', 0), (''neutral'', 1 / 20)]
     = Inr (''extreme_left'', 9 / 20)"
proof -
  let ?s = "[(''left_wing'', 1 / 2), (''right_wing'', 0),
       (''extreme_left'', 9 / 20), (''extreme_right'', 0), (''neutral'', 1 / 20 :: rat)]"
  have d: "distinct (map fst ?s)" by simp
  have l: "map_of ?s ''extreme_left'' = Some (9 / 20)" by simp
  have r: "map_of ?s ''extreme_right'' = Some 0" by simp
  have m: "py_max (map snd ?s) = Inr (1 / 2)" by simp
  have nz: "(1 / 2 :: rat) \<noteq> 0" by simp
  have dom: "(1 / 2 :: rat) * (85 / 100) \<le> 9 / 20 \<or> (1 / 2 :: rat) * (85 / 100) \<le> 0" by simp
  from determine_overall_bias_extreme [OF d l r m nz dom] show ?thesis by simp
qed

text \<open>
  The claim as stated fails on the vector of zeros: both extreme categories score
  0.85 times the maximum, and the guard for a maximum of 0 returns \<open>neutral\<close>.
\<close>

theorem determine_overall_bias_extreme_counterexample:
  "map_of [(''left_wing'', 0), (''right_wing'', 0), (''extreme_left'', 0),
           (''extreme_right'', 0), (''neutral'', 0 :: rat)] ''extreme_left'' = Some 0 \<and>
   py_max (map snd [(''left_wing'', 0), (''right_wing'', 0), (''extreme_left'', 0),
           (''extreme_right'', 0), (''neutral'', 0)]) = Inr 0 \<and>
   (0 :: rat) * (85 / 100) \<le> 0 \<and>
   determine_overall_bias [(''left_wing'', 0), (''right_wing'', 0), (''extreme_left'', 0),
           (''extreme_right'', 0), (''neutral'', 0)] = Inr (''neutral'', 0)"
  by (simp add: determine_overall_bias_def and_then_def)



section \<open>Claims about the request handler and the two engines\<close>

lemma strip_blank:
  assumes "\<forall>c\<in>set s. is_space c"
  shows "strip s = []"
proof -
  from assms have d: "dropWhile is_space s = []" by (induction s) auto
  show ?thesis unfolding strip_def d by simp
qed

text \<open>
  Claim C7. A request whose text is empty or consists of whitespace only is answered
  with the client error 400 and the message \<open>Text cannot be empty\<close>; the trace of the
  handler then holds two log records and no call of \<open>calculate_bias_scores\<close>.
\<close>

theorem analyze_text_rejects_blank:
  assumes "\<forall>c\<in>set input_text. is_space c"
  shows "analyze_text kw input_text =
           ([Log_info_received, Log_warning_empty_text],
            Inl (HTTPException 400 ''Text cannot be empty'')) \<and>
         Call_calculate_bias_scores \<notin> set (fst (analyze_text kw input_text))"
proof -
  from assms have "strip input_text = []" by (rule strip_blank)
  then show ?thesis by (simp add: analyze_text_def)
qed

text \<open>
  On the text of two spaces the scorer itself would raise (the tabulator is a phrase
  without a word that does not occur in the text), which the handler would report as the
  server error 500; the rejection comes first.
\<close>

theorem analyze_text_rejects_blank_witness:
  "analyze_text (kw_example\<lparr>extreme_right_keywords := [[CHR 0x09]]\<rparr>) ''  '' =
     ([Log_info_received, Log_warning_empty_text],
      Inl (HTTPException 400 ''Text cannot be empty'')) \<and>
   calculate_bias_scores (kw_example\<lparr>extreme_right_keywords := [[CHR 0x09]]\<rparr>) ''  ''
     = Inl ZeroDivisionError"
proof -
  have h: "\<forall>c\<in>set ''  ''. is_space c" by code_simp
  have "find_phrase_matches ''  '' [[CHR 0x09]] = Inl ZeroDivisionError"
    by code_simp
  then have "calculate_bias_scores (kw_example\<lparr>extreme_right_keywords := [[CHR 0x09]]\<rparr>) ''  ''
     = Inl ZeroDivisionError"
    by (simp add: calculate_bias_scores_def raw_bias_scores_def score_block_def and_then_def)
  with analyze_text_rejects_blank [OF h] show ?thesis by blast
qed

text \<open>
  Claim C8. The pipeline of \<open>server.py\<close> is not equal to the one of \<open>main.py\<close>. On
  the first text one match in each wing gives \<open>mixed\<close> in \<open>main.py\<close> (both wings are
  within the band of 0.85) and \<open>left_wing\<close> in \<open>server.py\<close>; on the second text the
  labels agree and the confidences differ: 1 / (1 + 0.75) against
  (1.2 + 0.5) / (1.2 + 0.5 + 0.3 + 0.5).
\<close>

theorem pipelines_differ:
  "main_pipeline kw_example ''welfare deregulation'' = Inr (''mixed'', 1 / 2) \<and>
   server_pipeline kw_example ''welfare deregulation'' = Inr (''left_wing'', 1 / 2) \<and>
   main_pipeline kw_example ''welfare report'' = Inr (''left_wing'', 4 / 7) \<and>
   server_pipeline kw_example ''welfare report'' = Inr (''left_wing'', 17 / 25) \<and>
   main_pipeline kw_example ''welfare deregulation''
     \<noteq> server_pipeline kw_example ''welfare deregulation''"
proof -
  have a: "main_pipeline kw_example ''welfare deregulation'' = Inr (''mixed'', 1 / 2)"
    by code_simp
  have b: "server_pipeline kw_example ''welfare deregulation'' = Inr (''left_wing'', 1 / 2)"
    by code_simp
  have c: "main_pipeline kw_example ''welfare report'' = Inr (''left_wing'', 4 / 7)"
    by code_simp
  have d: "server_pipeline kw_example ''welfare report'' = Inr (''left_wing'', 17 / 25)"
    by code_simp
  have "main_pipeline kw_example ''welfare deregulation''
     \<noteq> server_pipeline kw_example ''welfare deregulation''"
    unfolding a b by simp
  with a b c d show ?thesis by (simp only: simp_thms)
qed

end
